theory Spec2Isabelle
  imports Main
begin

section \<open>Python values and exceptions\<close>

text \<open>
  The values a configuration field can hold are the values of parsed JSON, plus a
  reference to a config instance (an object identity), because the source passes
  an instance where a flag is expected and Python then tests its truthiness.
  Strings are modelled as lists of 8-bit characters; the definitions below are
  those of Python's \<^verbatim>\<open>str\<close> on ASCII text.
\<close>

type_synonym oid = nat
type_synonym addr = nat

datatype pyval =
    PyNone
  | PyBool bool
  | PyInt int
  | PyStr string
  | PyList "pyval list"
  | PyDict "(string \<times> pyval) list"
  | PyObj oid

datatype exn =
    DeriableSetValueError
  | DontDumpError
  | AttributeError
  | IndexError
  | ValueError
  | TypeError
  | NotImplementedError
  | OtherError string

text \<open>Truthiness, as tested by \<^verbatim>\<open>if check_dont_dump:\<close>. A config instance defines neither
  \<^verbatim>\<open>__bool__\<close> nor \<^verbatim>\<open>__len__\<close>, so it is true.\<close>

fun truthy :: "pyval \<Rightarrow> bool" where
  "truthy PyNone = False"
| "truthy (PyBool b) = b"
| "truthy (PyInt i) = (i \<noteq> 0)"
| "truthy (PyStr s) = (s \<noteq> [])"
| "truthy (PyList xs) = (xs \<noteq> [])"
| "truthy (PyDict kvs) = (kvs \<noteq> [])"
| "truthy (PyObj _) = True"

section \<open>String builtins used by the source\<close>

definition dquote :: char where
  "dquote = CHR 0x22"

definition backslash :: char where
  "backslash = CHR 0x5C"

fun startswith :: "string \<Rightarrow> string \<Rightarrow> bool" where
  "startswith s [] = True"
| "startswith [] (p # ps) = False"
| "startswith (c # cs) (p # ps) = (c = p \<and> startswith cs ps)"

text \<open>\<^verbatim>\<open>s.split(sep)\<close>: non-overlapping occurrences, left to right; an empty separator
  raises ValueError.\<close>

fun split_go :: "string \<Rightarrow> string \<Rightarrow> string \<Rightarrow> string list" where
  "split_go sep acc [] = [rev acc]"
| "split_go sep acc (c # cs) =
     (if startswith (c # cs) sep
      then rev acc # split_go sep [] (drop (length sep - 1) cs)
      else split_go sep (c # acc) cs)"

definition py_split :: "string \<Rightarrow> string \<Rightarrow> exn + string list" where
  "py_split s sep = (if sep = [] then Inl ValueError else Inr (split_go sep [] s))"

text \<open>\<^verbatim>\<open>sep.join(parts)\<close>.\<close>

fun py_join :: "string \<Rightarrow> string list \<Rightarrow> string" where
  "py_join sep [] = []"
| "py_join sep [p] = p"
| "py_join sep (p # q # ps) = p @ sep @ py_join sep (q # ps)"

text \<open>\<^verbatim>\<open>str.isspace\<close> on ASCII: tab, LF, VT, FF, CR, FS, GS, RS, US and space.\<close>

definition is_space :: "char \<Rightarrow> bool" where
  "is_space c = (c \<in> set [CHR 0x09, CHR 0x0A, CHR 0x0B, CHR 0x0C, CHR 0x0D,
                           CHR 0x1C, CHR 0x1D, CHR 0x1E, CHR 0x1F, CHR 0x20])"

definition py_rstrip :: "string \<Rightarrow> string" where
  "py_rstrip s = rev (dropWhile is_space (rev s))"

text \<open>\<^verbatim>\<open>str.splitlines()\<close> on ASCII: the line boundaries are LF, CR, CR LF, VT, FF, FS, GS
  and RS; the boundaries are dropped and a final boundary opens no further line.\<close>

definition is_linebreak :: "char \<Rightarrow> bool" where
  "is_linebreak c = (c \<in> set [CHR 0x0A, CHR 0x0B, CHR 0x0C, CHR 0x0D,
                               CHR 0x1C, CHR 0x1D, CHR 0x1E])"

fun splitlines_go :: "string \<Rightarrow> string \<Rightarrow> string list" where
  "splitlines_go acc [] = (if acc = [] then [] else [rev acc])"
| "splitlines_go acc [c] =
     (if is_linebreak c then [rev acc] else [rev (c # acc)])"
| "splitlines_go acc (c # d # cs) =
     (if c = CHR 0x0D \<and> d = CHR 0x0A then rev acc # splitlines_go [] cs
      else if is_linebreak c then rev acc # splitlines_go [] (d # cs)
      else splitlines_go (c # acc) (d # cs))"

definition splitlines :: "string \<Rightarrow> string list" where
  "splitlines s = splitlines_go [] s"

section \<open>Comment stripping\<close>

text \<open>
  The number of matches \<^verbatim>\<open>re.findall\<close> reports for the pattern
  \<^verbatim>\<open>(?:^|[^"\\]|(?:\\\\|\\")+)(")\<close> in one part of a line. The scan goes left to right
  and matches do not overlap. At a position the alternatives are tried in order:
  the start of the part followed by a quote; one character that is neither a quote
  nor a backslash, followed by a quote; a longest run of the two-character pairs
  backslash-backslash and backslash-quote, followed by a quote (a shorter run is
  followed by the backslash of the next pair, so backtracking finds nothing more).
  When no alternative matches, the scan moves one character on.
\<close>

fun escaped_pairs :: "string \<Rightarrow> nat \<times> string" where
  "escaped_pairs (c # d # cs) =
     (if c = backslash \<and> (d = backslash \<or> d = dquote)
      then (case escaped_pairs cs of (n, rest) \<Rightarrow> (Suc n, rest))
      else (0, c # d # cs))"
| "escaped_pairs cs = (0, cs)"

lemma escaped_pairs_length: "length (snd (escaped_pairs cs)) \<le> length cs"
  by (induction cs rule: escaped_pairs.induct) (auto split: prod.splits)

lemma startswith_tl_shorter: "startswith cs [q] \<Longrightarrow> length (tl cs) < length cs"
  by (cases cs) auto

function count_quotes :: "bool \<Rightarrow> string \<Rightarrow> nat" where
  "count_quotes at_start [] = 0"
| "count_quotes at_start (c # cs) =
     (if at_start \<and> c = dquote then Suc (count_quotes False cs)
      else if c \<noteq> dquote \<and> c \<noteq> backslash \<and> startswith cs [dquote]
        then Suc (count_quotes False (tl cs))
      else (case escaped_pairs (c # cs) of (n, rest) \<Rightarrow>
        if 0 < n \<and> startswith rest [dquote] then Suc (count_quotes False (tl rest))
        else count_quotes False cs))"
  by pat_completeness auto
termination
proof (relation "measure (\<lambda>(b, cs). length cs)", goal_cases)
  case 1
  show ?case by simp
next
  case 2
  show ?case by simp
next
  case 3
  then show ?case by (auto dest: startswith_tl_shorter)
next
  case (4 at_start c cs n rest)
  have "length rest \<le> length (c # cs)"
    using escaped_pairs_length [of "c # cs"] 4 by (metis snd_conv)
  moreover have "length (tl rest) < length rest"
    using 4 startswith_tl_shorter by blast
  ultimately show ?case by simp
next
  case 5
  show ?case by simp
qed

text \<open>The loop of \<^verbatim>\<open>strip_comment_line_with_symbol\<close> over the counts; its
  \<^verbatim>\<open>else\<close> branch runs when no running total is even.\<close>

fun strip_loop :: "string \<Rightarrow> string \<Rightarrow> string list \<Rightarrow> nat \<Rightarrow> nat \<Rightarrow> nat list \<Rightarrow> string" where
  "strip_loop line start parts tot nr [] = py_rstrip line"
| "strip_loop line start parts tot nr (cnt # counts) =
     (let tot' = tot + cnt in
      if tot' mod 2 = 0 then py_rstrip (py_join start (take (nr + 1) parts))
      else strip_loop line start parts tot' (nr + 1) counts)"

definition strip_comment_line_with_symbol :: "string \<Rightarrow> string \<Rightarrow> exn + string" where
  "strip_comment_line_with_symbol line start =
     (case py_split line start of
        Inl e \<Rightarrow> Inl e
      | Inr parts \<Rightarrow>
          (let counts = map (count_quotes True) parts
           in Inr (strip_loop line start parts 0 0 counts)))"

text \<open>The inner loop of \<^verbatim>\<open>strip_comments\<close> over the comment symbols, for one line. The
  symbols are a frozenset in the source; the list is its iteration order.\<close>

fun strip_line :: "string list \<Rightarrow> string \<Rightarrow> exn + string" where
  "strip_line [] line = Inr line"
| "strip_line (symbol # symbols) line =
     (case strip_comment_line_with_symbol line symbol of
        Inl e \<Rightarrow> Inl e
      | Inr line' \<Rightarrow> strip_line symbols line')"

fun strip_lines :: "string list \<Rightarrow> string list \<Rightarrow> exn + string list" where
  "strip_lines symbols [] = Inr []"
| "strip_lines symbols (l # ls) =
     (case strip_line symbols l of
        Inl e \<Rightarrow> Inl e
      | Inr l' \<Rightarrow> (case strip_lines symbols ls of
                     Inl e \<Rightarrow> Inl e
                   | Inr ls' \<Rightarrow> Inr (l' # ls')))"

definition strip_comments :: "string \<Rightarrow> string list \<Rightarrow> exn + string" where
  "strip_comments string comment_symbols =
     (case strip_lines comment_symbols (splitlines string) of
        Inl e \<Rightarrow> Inl e
      | Inr lines \<Rightarrow> Inr (py_join [CHR 0x0A] lines))"

section \<open>Fields\<close>

text \<open>
  A Field object lives in a store at an address; a schema class refers to its fields
  by address, so that two references to one object are two occurrences of one
  address. The class of the object is its \<open>kind\<close>. A getter or validator is a
  reference into a table of user functions (\<open>code\<close>); user functions read the store
  and the instance they are given and either return a value or raise.
\<close>

datatype kind = BaseField | Constant | Derivable

type_synonym fn = nat

datatype validator = DefaultValidator | UserValidator fn

record field_obj =
  kind :: kind
  fvalue :: pyval
  dont_dump :: bool
  printable :: bool
  config_object :: "oid option"
  creation_index :: nat
  getter_method :: "fn option"
  validate_method :: validator

type_synonym heap = "addr \<Rightarrow> field_obj"

record code =
  getters :: "fn \<Rightarrow> oid \<Rightarrow> heap \<Rightarrow> exn + pyval"
  validators :: "fn \<Rightarrow> addr \<Rightarrow> pyval \<Rightarrow> heap \<Rightarrow> exn + pyval"

text \<open>\<^verbatim>\<open>Field.__init__\<close>, on the fresh object \<open>self\<close> and the class-level counter
  \<^verbatim>\<open>Field._creation_index\<close>; it returns the initialised object and the new counter.\<close>

definition Field_init ::
  "field_obj \<Rightarrow> pyval \<Rightarrow> pyval \<Rightarrow> bool \<Rightarrow> bool \<Rightarrow> nat \<Rightarrow> field_obj \<times> nat" where
  "Field_init self v dflt dd pr counter =
     (let self = (if v = PyNone then self\<lparr>fvalue := dflt\<rparr> else self);
          self = self\<lparr>fvalue := v\<rparr>;
          self = self\<lparr>dont_dump := dd\<rparr>;
          self = self\<lparr>printable := pr\<rparr>;
          self = self\<lparr>config_object := None\<rparr>;
          self = self\<lparr>creation_index := counter\<rparr>;
          counter = counter + 1;
          self = self\<lparr>getter_method := None\<rparr>;
          self = self\<lparr>validate_method := DefaultValidator\<rparr>
      in (self, counter))"

text \<open>\<^verbatim>\<open>set_value\<close>: \<^verbatim>\<open>Constant\<close> overrides it, \<^verbatim>\<open>Derivable\<close> inherits the raising method of
  \<^verbatim>\<open>Field\<close>.\<close>

definition set_value :: "addr \<Rightarrow> pyval \<Rightarrow> heap \<Rightarrow> exn + heap" where
  "set_value self v h =
     (case kind (h self) of
        Constant \<Rightarrow> Inr (h(self := (h self)\<lparr>fvalue := v\<rparr>))
      | Derivable \<Rightarrow> Inl DeriableSetValueError
      | BaseField \<Rightarrow> Inl DeriableSetValueError)"

definition get_value :: "code \<Rightarrow> addr \<Rightarrow> pyval \<Rightarrow> pyval \<Rightarrow> heap \<Rightarrow> exn + pyval" where
  "get_value cd self check_dont_dump check_printable h =
     (case config_object (h self) of
        None \<Rightarrow> Inl AttributeError
      | Some config \<Rightarrow>
          if truthy check_dont_dump \<and> dont_dump (h self) then Inl DontDumpError
          else if truthy check_printable \<and> \<not> printable (h self)
            then Inr (PyStr ''***HIDDEN***'')
          else (case getter_method (h self) of
                  None \<Rightarrow> Inr (fvalue (h self))
                | Some g \<Rightarrow> getters cd g config h))"

text \<open>The call \<^verbatim>\<open>self._validate_method(self, value)\<close>; the validator set by
  \<^verbatim>\<open>Field.__init__\<close> returns True.\<close>

definition call_validate_method :: "code \<Rightarrow> addr \<Rightarrow> pyval \<Rightarrow> heap \<Rightarrow> exn + pyval" where
  "call_validate_method cd self v h =
     (case validate_method (h self) of
        DefaultValidator \<Rightarrow> Inr (PyBool True)
      | UserValidator f \<Rightarrow> validators cd f self v h)"

text \<open>\<^verbatim>\<open>Constant.validate(self)\<close> calls \<^verbatim>\<open>self.get_value()\<close> with both flags at their
  default False.\<close>

definition Constant_validate :: "code \<Rightarrow> addr \<Rightarrow> heap \<Rightarrow> exn + unit" where
  "Constant_validate cd self h =
     (case get_value cd self (PyBool False) (PyBool False) h of
        Inl e \<Rightarrow> Inl e
      | Inr v \<Rightarrow> (case call_validate_method cd self v h of
                    Inl e \<Rightarrow> Inl e
                  | Inr _ \<Rightarrow> Inr ()))"

text \<open>\<^verbatim>\<open>Derivable.validate(self, config_instance)\<close> calls
  \<^verbatim>\<open>self.get_value(config_instance)\<close>: the instance is the first positional argument of
  \<^verbatim>\<open>get_value\<close>, which is \<^verbatim>\<open>check_dont_dump\<close>.\<close>

definition Derivable_validate :: "code \<Rightarrow> addr \<Rightarrow> pyval \<Rightarrow> heap \<Rightarrow> exn + unit" where
  "Derivable_validate cd self config_instance h =
     (case get_value cd self config_instance (PyBool False) h of
        Inl e \<Rightarrow> Inl e
      | Inr v \<Rightarrow> (case call_validate_method cd self v h of
                    Inl e \<Rightarrow> Inl e
                  | Inr _ \<Rightarrow> Inr ()))"

text \<open>The method call \<^verbatim>\<open>field.validate(*args)\<close>, dispatched on the class of the object.\<close>

fun validate_call :: "code \<Rightarrow> addr \<Rightarrow> pyval list \<Rightarrow> heap \<Rightarrow> exn + unit" where
  "validate_call cd self args h =
     (case kind (h self) of
        BaseField \<Rightarrow> Inl NotImplementedError
      | Constant \<Rightarrow> (case args of [] \<Rightarrow> Constant_validate cd self h | _ \<Rightarrow> Inl TypeError)
      | Derivable \<Rightarrow> (case args of [ci] \<Rightarrow> Derivable_validate cd self ci h
                                 | _ \<Rightarrow> Inl TypeError))"

section \<open>Schema builder\<close>

text \<open>
  A class attribute is either a Field object or anything else; \<^verbatim>\<open>_get_fields\<close> keeps the
  former. (A Field \<^emph>\<open>class\<close> stored as an attribute, which \<^verbatim>\<open>is_instance_or_subclass\<close>
  also accepts, is not modelled.) A mapping whose order matters (a class body, an
  OrderedDict, a dict that is iterated) is a list of pairs with distinct keys.
\<close>

datatype attr = AField addr | AOther

text \<open>\<^verbatim>\<open>d[k] = v\<close> on an insertion-ordered dict: an existing key keeps its position.\<close>

fun setitem :: "('k \<times> 'v) list \<Rightarrow> 'k \<Rightarrow> 'v \<Rightarrow> ('k \<times> 'v) list" where
  "setitem [] k v = [(k, v)]"
| "setitem ((k', v') # d) k v =
     (if k' = k then (k, v) # d else (k', v') # setitem d k v)"

text \<open>\<^verbatim>\<open>OrderedDict(pairs)\<close>.\<close>

definition OrderedDict :: "('k \<times> 'v) list \<Rightarrow> ('k \<times> 'v) list" where
  "OrderedDict pairs = foldl (\<lambda>d (k, v). setitem d k v) [] pairs"

text \<open>\<^verbatim>\<open>_get_fields(attrs, Field, pop, ordered)\<close>: the fields found and the mapping as
  \<^verbatim>\<open>pop\<close> leaves it. \<^verbatim>\<open>list.sort\<close> is stable, as is \<^const>\<open>sort_key\<close>.\<close>

definition is_field :: "attr \<Rightarrow> bool" where
  "is_field x = (case x of AField _ \<Rightarrow> True | AOther \<Rightarrow> False)"

definition the_field :: "attr \<Rightarrow> addr" where
  "the_field x = (case x of AField a \<Rightarrow> a | AOther \<Rightarrow> 0)"

definition get_fields ::
  "heap \<Rightarrow> (string \<times> attr) list \<Rightarrow> bool \<Rightarrow> bool \<Rightarrow> (string \<times> addr) list \<times> (string \<times> attr) list" where
  "get_fields h attrs pop ordered =
     (let fields = map (\<lambda>(field_name, field_value). (field_name, the_field field_value))
                     (filter (\<lambda>(field_name, field_value). is_field field_value) attrs);
          attrs = (if pop then filter (\<lambda>(n, x). n \<notin> set (map fst fields)) attrs else attrs);
          fields = (if ordered then sort_key (\<lambda>pair. creation_index (h (snd pair))) fields
                    else fields)
      in (fields, attrs))"

record klass =
  declared_fields :: "(string \<times> addr) list"
  constant_fields :: "(string \<times> addr) list"
  deriable_fields :: "(string \<times> addr) list"

text \<open>An entry of a method resolution order: a class on which the attribute
  \<^verbatim>\<open>_declared_fields\<close> is found, or a class on which it is not, with its \<^verbatim>\<open>__dict__\<close>.\<close>

datatype mro_entry = Schema klass | Plain "(string \<times> attr) list"

text \<open>\<^verbatim>\<open>getattr(base, "_declared_fields", base.__dict__)\<close>.\<close>

definition fields_source :: "mro_entry \<Rightarrow> (string \<times> attr) list" where
  "fields_source base =
     (case base of
        Schema k \<Rightarrow> map (\<lambda>(n, a). (n, AField a)) (declared_fields k)
      | Plain d \<Rightarrow> d)"

text \<open>\<^verbatim>\<open>_get_fields_by_mro\<close>; \<open>mro_tail\<close> is \<^verbatim>\<open>inspect.getmro(klass)\<close> without its first
  entry, the class itself, and \<^verbatim>\<open>mro[:0:-1]\<close> walks it in reverse.\<close>

definition get_fields_by_mro :: "heap \<Rightarrow> mro_entry list \<Rightarrow> bool \<Rightarrow> (string \<times> addr) list" where
  "get_fields_by_mro h mro_tail ordered =
     concat (map (\<lambda>base. fst (get_fields h (fields_source base) False ordered))
                 (rev mro_tail))"

text \<open>\<^verbatim>\<open>ConfigMeta.__new__\<close>, from the class body \<open>attrs\<close> and the resolution order of the
  new class after the class itself.\<close>

definition ConfigMeta_new :: "heap \<Rightarrow> (string \<times> attr) list \<Rightarrow> mro_entry list \<Rightarrow> klass" where
  "ConfigMeta_new h attrs mro_tail =
     (let cls_fields = fst (get_fields h attrs False True);
          inherited_fields = get_fields_by_mro h mro_tail True;
          declared = OrderedDict (inherited_fields @ cls_fields)
      in \<lparr>declared_fields = declared,
          constant_fields = filter (\<lambda>(name, field). kind (h field) = Constant) declared,
          deriable_fields = filter (\<lambda>(name, field). kind (h field) = Derivable) declared\<rparr>)"

text \<open>\<^verbatim>\<open>BaseConfigClass\<close> carries three empty registries; \<^verbatim>\<open>object\<close> has no Field among
  its attributes; \<^verbatim>\<open>ConfigClass\<close> is \<^verbatim>\<open>BaseConfigClass\<close> rebuilt by the metaclass with a
  body that holds no Field.\<close>

definition BaseConfigClass :: klass where
  "BaseConfigClass = \<lparr>declared_fields = [], constant_fields = [], deriable_fields = []\<rparr>"

definition object_mro :: "mro_entry list" where
  "object_mro = [Plain [(''__doc__'', AOther)]]"

definition BaseConfigClass_mro :: "mro_entry list" where
  "BaseConfigClass_mro = Schema BaseConfigClass # object_mro"

definition ConfigClass :: "heap \<Rightarrow> klass" where
  "ConfigClass h = ConfigMeta_new h [(''__doc__'', AOther)] BaseConfigClass_mro"

definition ConfigClass_mro :: "heap \<Rightarrow> mro_entry list" where
  "ConfigClass_mro h = Schema (ConfigClass h) # BaseConfigClass_mro"

text \<open>A class statement with one base: the resolution order of the new class is the
  class followed by the resolution order of its base.\<close>

definition class_statement :: "heap \<Rightarrow> mro_entry list \<Rightarrow> (string \<times> attr) list \<Rightarrow> mro_entry list" where
  "class_statement h base_mro attrs = Schema (ConfigMeta_new h attrs base_mro) # base_mro"

text \<open>A chain of such class statements below \<^verbatim>\<open>ConfigClass\<close>, most-base body first.\<close>

definition class_chain :: "heap \<Rightarrow> (string \<times> attr) list list \<Rightarrow> mro_entry list" where
  "class_chain h bodies = foldl (class_statement h) (ConfigClass_mro h) bodies"

section \<open>Config instances\<close>

text \<open>An instance is an identity and its class: \<^verbatim>\<open>__init__\<close> stores nothing on the
  instance, and \<^verbatim>\<open>self._declared_fields\<close> is the attribute of the class.\<close>

record config =
  self_id :: oid
  klass_of :: klass

text \<open>The loop of \<^verbatim>\<open>BaseConfigClass.__init__\<close>. A raise leaves the store as the
  iterations before it made it.\<close>

fun init_loop ::
  "(string \<times> addr) list \<Rightarrow> oid \<Rightarrow> (string \<rightharpoonup> pyval) \<Rightarrow> heap \<Rightarrow> exn \<times> heap + heap" where
  "init_loop [] self kwargs h = Inr h"
| "init_loop ((name, field) # rest) self kwargs h =
     (case (case kwargs name of
              Some v \<Rightarrow> set_value field v h
            | None \<Rightarrow> Inr h) of
        Inl e \<Rightarrow> Inl (e, h)
      | Inr h' \<Rightarrow>
          init_loop rest self kwargs (h'(field := (h' field)\<lparr>config_object := Some self\<rparr>)))"

definition BaseConfigClass_init :: "config \<Rightarrow> (string \<rightharpoonup> pyval) \<Rightarrow> heap \<Rightarrow> exn \<times> heap + heap" where
  "BaseConfigClass_init self kwargs h =
     init_loop (declared_fields (klass_of self)) (self_id self) kwargs h"

text \<open>The loop shared by \<^verbatim>\<open>from_dict\<close> and \<^verbatim>\<open>update\<close> over \<^verbatim>\<open>dct.items()\<close>.\<close>

fun update_loop ::
  "(string \<times> addr) list \<Rightarrow> (string \<times> pyval) list \<Rightarrow> heap \<Rightarrow> exn \<times> heap + heap" where
  "update_loop cf [] h = Inr h"
| "update_loop cf ((key, v) # rest) h =
     (case map_of cf key of
        None \<Rightarrow> update_loop cf rest h
      | Some field \<Rightarrow>
          (case set_value field v h of
             Inl e \<Rightarrow> Inl (e, h)
           | Inr h' \<Rightarrow> update_loop cf rest h'))"


text \<open>\<^verbatim>\<open>from_dict(cls, dct)\<close>; \<open>new_id\<close> is the identity of the instance \<^verbatim>\<open>cls()\<close> creates.\<close>

definition from_dict ::
  "klass \<Rightarrow> oid \<Rightarrow> (string \<times> pyval) list \<Rightarrow> heap \<Rightarrow> exn \<times> heap + config \<times> heap" where
  "from_dict cls new_id dct h =
     (let config = \<lparr>self_id = new_id, klass_of = cls\<rparr> in
      case BaseConfigClass_init config Map.empty h of
        Inl eh \<Rightarrow> Inl eh
      | Inr h1 \<Rightarrow>
          (case update_loop (constant_fields (klass_of config)) dct h1 of
             Inl eh \<Rightarrow> Inl eh
           | Inr h2 \<Rightarrow> Inr (config, h2)))"

text \<open>\<^verbatim>\<open>to_dict\<close>: only \<^verbatim>\<open>DontDumpError\<close> is caught and passed over; any other exception
  is raised again.\<close>

fun to_dict_loop ::
  "code \<Rightarrow> (string \<times> addr) list \<Rightarrow> pyval \<Rightarrow> pyval \<Rightarrow> heap \<Rightarrow> (string \<times> pyval) list
     \<Rightarrow> exn + (string \<times> pyval) list" where
  "to_dict_loop cd [] check_dont_dump check_printable h dct = Inr dct"
| "to_dict_loop cd ((attr, field) # rest) check_dont_dump check_printable h dct =
     (case get_value cd field check_dont_dump check_printable h of
        Inr v \<Rightarrow> to_dict_loop cd rest check_dont_dump check_printable h (setitem dct attr v)
      | Inl e \<Rightarrow>
          if e = DontDumpError
          then to_dict_loop cd rest check_dont_dump check_printable h dct
          else Inl e)"

definition to_dict ::
  "code \<Rightarrow> config \<Rightarrow> pyval \<Rightarrow> pyval \<Rightarrow> heap \<Rightarrow> exn + (string \<times> pyval) list" where
  "to_dict cd self check_dont_dump check_printable h =
     to_dict_loop cd (declared_fields (klass_of self)) check_dont_dump check_printable h []"

text \<open>\<^verbatim>\<open>BaseConfigClass.validate\<close>: the constant fields, then the derivable fields with
  the instance as argument.\<close>

fun validate_loop :: "code \<Rightarrow> (string \<times> addr) list \<Rightarrow> pyval list \<Rightarrow> heap \<Rightarrow> exn + unit" where
  "validate_loop cd [] args h = Inr ()"
| "validate_loop cd ((attr, field) # rest) args h =
     (case validate_call cd field args h of
        Inl e \<Rightarrow> Inl e
      | Inr _ \<Rightarrow> validate_loop cd rest args h)"

definition validate :: "code \<Rightarrow> config \<Rightarrow> heap \<Rightarrow> exn + unit" where
  "validate cd self h =
     (case validate_loop cd (constant_fields (klass_of self)) [] h of
        Inl e \<Rightarrow> Inl e
      | Inr _ \<Rightarrow> validate_loop cd (deriable_fields (klass_of self)) [PyObj (self_id self)] h)"

section \<open>CloudFormation export\<close>

text \<open>\<^verbatim>\<open>str.upper\<close> and \<^verbatim>\<open>str.lower\<close> on ASCII letters.\<close>

definition upper :: "char \<Rightarrow> char" where
  "upper c = (let n = (of_char c :: nat) in if 97 \<le> n \<and> n \<le> 122 then char_of (n - 32) else c)"

definition lower :: "char \<Rightarrow> char" where
  "lower c = (let n = (of_char c :: nat) in if 65 \<le> n \<and> n \<le> 90 then char_of (n + 32) else c)"





section \<open>Auxiliary notions for the statements\<close>

text \<open>
  The three registries of a class agree with a store when the constant and derivable
  registries are the declared fields of that class, the names are distinct (the
  registry is a dict). \<^verbatim>\<open>ConfigMeta.__new__\<close> builds them so, and no operation changes the
  class of a Field object.
\<close>

definition registries_agree :: "heap \<Rightarrow> klass \<Rightarrow> bool" where
  "registries_agree h k =
     (distinct (map fst (declared_fields k)) \<and>
      constant_fields k = filter (\<lambda>(name, field). kind (h field) = Constant) (declared_fields k) \<and>
      deriable_fields k = filter (\<lambda>(name, field). kind (h field) = Derivable) (declared_fields k))"

text \<open>The values a mapping assigns to the field object \<open>a\<close> through the keys that name it
  in a registry, in the order of the mapping.\<close>

definition values_for :: "(string \<times> addr) list \<Rightarrow> (string \<times> pyval) list \<Rightarrow> addr \<Rightarrow> pyval list" where
  "values_for reg dct a = map snd (filter (\<lambda>(key, v). map_of reg key = Some a) dct)"

definition last_or :: "'a \<Rightarrow> 'a list \<Rightarrow> 'a" where
  "last_or x xs = (if xs = [] then x else last xs)"

text \<open>The spec's words: split on underscore, capitalise the first letter of each segment,
  lower the rest, concatenate.\<close>

definition capitalize :: "string \<Rightarrow> string" where
  "capitalize w = map upper (take 1 w) @ map lower (drop 1 w)"

definition camel_case :: "string \<Rightarrow> string" where
  "camel_case key = concat (map capitalize (split_go ''_'' [] key))"




text \<open>Storing a list of pairs into a dict one after the other, as \<^verbatim>\<open>OrderedDict(pairs)\<close>
  does starting from the empty dict.\<close>

definition setitems :: "('k \<times> 'v) list \<Rightarrow> ('k \<times> 'v) list \<Rightarrow> ('k \<times> 'v) list" where
  "setitems d pairs = foldl (\<lambda>d (k, v). setitem d k v) d pairs"

text \<open>
  The registry of the first class of a resolution order; the fields a class body
  declares, as \<^verbatim>\<open>ConfigMeta.__new__\<close> collects them (\<^verbatim>\<open>cls_fields\<close>); the registry of the last
  class of a single-inheritance chain; and the property that the registry of the first
  class of a resolution order is what the inherited fields of a direct subclass make.
\<close>

definition parent_registry :: "mro_entry list \<Rightarrow> (string \<times> addr) list" where
  "parent_registry mro = (case mro of Schema k # _ \<Rightarrow> declared_fields k | _ \<Rightarrow> [])"

definition cls_fields :: "heap \<Rightarrow> (string \<times> attr) list \<Rightarrow> (string \<times> addr) list" where
  "cls_fields h attrs = fst (get_fields h attrs False True)"

definition chain_registry :: "heap \<Rightarrow> (string \<times> attr) list list \<Rightarrow> (string \<times> addr) list" where
  "chain_registry h bodies = parent_registry (class_chain h bodies)"

definition registry_consistent :: "heap \<Rightarrow> mro_entry list \<Rightarrow> bool" where
  "registry_consistent h mro =
     (OrderedDict (get_fields_by_mro h mro True) = parent_registry mro)"

section \<open>An example schema\<close>

text \<open>The store a raising operation leaves behind, or the one a returning operation
  returns.\<close>

definition store_after :: "exn \<times> heap + heap \<Rightarrow> heap" where
  "store_after r = (case r of Inl (e, h) \<Rightarrow> h | Inr h \<Rightarrow> h)"

text \<open>The object \<^verbatim>\<open>__new__\<close> hands to \<^verbatim>\<open>Field.__init__\<close>: only its class is fixed, every
  attribute is assigned by \<^verbatim>\<open>__init__\<close>.\<close>

definition new_object :: "kind \<Rightarrow> field_obj" where
  "new_object k = \<lparr>kind = k, fvalue = PyNone, dont_dump = False, printable = True,
     config_object = None, creation_index = 0, getter_method = None,
     validate_method = DefaultValidator\<rparr>"

definition declare_field :: "kind \<Rightarrow> pyval \<Rightarrow> bool \<Rightarrow> nat \<Rightarrow> field_obj" where
  "declare_field k v dd n = fst (Field_init (new_object k) v PyNone dd True n)"

text \<open>
  A schema with a Constant \<^verbatim>\<open>project_name = Constant(value="app")\<close> and a Derivable
  \<^verbatim>\<open>secret_slug = Derivable(dont_dump=True)\<close> whose getter returns the value of
  \<^verbatim>\<open>project_name\<close> and whose validator is the default one.
\<close>

definition app_heap :: heap where
  "app_heap = (\<lambda>a. new_object BaseField)
     (0 := declare_field Constant (PyStr ''app'') False 0,
      1 := (declare_field Derivable PyNone True 1)\<lparr>getter_method := Some 0\<rparr>)"

definition app_code :: code where
  "app_code = \<lparr>getters = (\<lambda>g config h. Inr (fvalue (h 0))),
               validators = (\<lambda>f self v h. Inr (PyBool True))\<rparr>"

definition app_class :: klass where
  "app_class = ConfigMeta_new app_heap [(''project_name'', AField 0), (''secret_slug'', AField 1)]
     (ConfigClass_mro app_heap)"

definition app_config :: "oid \<Rightarrow> config" where
  "app_config i = \<lparr>self_id = i, klass_of = app_class\<rparr>"

text \<open>The same schema with a getter that itself raises \<^verbatim>\<open>DontDumpError\<close>, and the store
  after one instance has been constructed.\<close>

definition raising_code :: code where
  "raising_code = \<lparr>getters = (\<lambda>g config h. Inl DontDumpError),
                   validators = (\<lambda>f self v h. Inr (PyBool True))\<rparr>"

definition app_bound :: heap where
  "app_bound = store_after (BaseConfigClass_init (app_config 7) Map.empty app_heap)"





text \<open>
  Four Constant fields created in the order of their addresses, and the classes
  \<^verbatim>\<open>class Base(ConfigClass): x = Constant(); y = Constant()\<close>,
  \<^verbatim>\<open>class Left(Base): y = Constant()\<close>, \<^verbatim>\<open>class Right(Base): x = Constant()\<close> and
  \<^verbatim>\<open>class Diamond(Left, Right): pass\<close>, whose resolution order is Diamond, Left, Right, Base,
  ConfigClass, BaseConfigClass, object.
\<close>

definition diamond_heap :: heap where
  "diamond_heap = (\<lambda>a. new_object BaseField)
     (0 := declare_field Constant PyNone False 0,
      1 := declare_field Constant PyNone False 1,
      2 := declare_field Constant PyNone False 2,
      3 := declare_field Constant PyNone False 3)"

definition Base_mro :: "mro_entry list" where
  "Base_mro = class_statement diamond_heap (ConfigClass_mro diamond_heap)
     [(''x'', AField 0), (''y'', AField 1)]"

definition Left_mro :: "mro_entry list" where
  "Left_mro = class_statement diamond_heap Base_mro [(''y'', AField 2)]"

definition Right_mro :: "mro_entry list" where
  "Right_mro = class_statement diamond_heap Base_mro [(''x'', AField 3)]"

definition Diamond_class :: klass where
  "Diamond_class = ConfigMeta_new diamond_heap [(''__module__'', AOther)]
     (hd Left_mro # hd Right_mro # Base_mro)"

section \<open>Comment stripping: an empty string literal flips the quote parity\<close>

text \<open>
  The pattern counts a quote only when it stands at the start of the part or follows a
  character other than a quote, or a run of escape pairs. The closing quote of an empty
  string literal follows a quote, so it is not counted.
\<close>

lemma count_quotes_empty_literal: \<open>count_quotes True ''""'' = 1\<close>
  by (simp add: dquote_def backslash_def)

text \<open>
  C2. Stripping and then parsing should give what parsing the comment-free text
  gives. The line \<^verbatim>\<open>{"a": ""} # c\<close> is JSON followed by a comment outside every string;
  \<^verbatim>\<open>strip_comments\<close> returns it with the comment still in place, in either order of the two
  symbols, so what is parsed afterwards is not the comment-free text \<^verbatim>\<open>{"a": ""}\<close>.
\<close>

theorem strip_comments_keeps_comment_after_empty_string:
  \<open>strip_comments ''{"a": ""} # c'' [''#'', ''//''] = Inr ''{"a": ""} # c'' \<and>
   strip_comments ''{"a": ""} # c'' [''//'', ''#''] = Inr ''{"a": ""} # c'' \<and>
   strip_comments ''{"a": 1} # c'' [''#'', ''//''] = Inr ''{"a": 1}''\<close>
  by (simp add: strip_comments_def splitlines_def strip_comment_line_with_symbol_def
      py_split_def py_rstrip_def is_space_def is_linebreak_def dquote_def backslash_def)

text \<open>
  C8. A comment symbol inside a quoted string must not truncate the line. In the
  line \<^verbatim>\<open>["", "#"]\<close> the \<^verbatim>\<open>#\<close> stands inside the second string, and the line is cut
  right after the opening quote of that string; likewise for \<^verbatim>\<open>//\<close>.
\<close>

theorem strip_comments_truncates_inside_string:
  \<open>strip_comment_line_with_symbol ''["", "#"]'' ''#'' = Inr ''["", "'' \<and>
   strip_comment_line_with_symbol ''["", "//"]'' ''//'' = Inr ''["", "'' \<and>
   strip_comments ''["", "#"]'' [''#'', ''//''] = Inr ''["", "'' \<and>
   strip_comments ''["", "#"]'' [''//'', ''#''] = Inr ''["", "'' \<and>
   strip_comments ''["a", "#"]'' [''#'', ''//''] = Inr ''["a", "#"]''\<close>
  by (simp add: strip_comments_def splitlines_def strip_comment_line_with_symbol_def
      py_split_def py_rstrip_def is_space_def is_linebreak_def dquote_def backslash_def)

section \<open>Fields: construction and assignment\<close>

text \<open>
  C9. A Field constructed with \<^verbatim>\<open>value=None\<close> and any default has the value None: the
  assignment of the default is overwritten by the assignment of the value argument,
  whatever the class of the field and the default. The value of a new field is always
  the value argument.
\<close>

theorem Field_init_ignores_default:
  "fvalue (fst (Field_init self PyNone dflt dd pr n)) = PyNone \<and>
   fvalue (fst (Field_init self v dflt dd pr n)) = v"
  by (simp add: Field_init_def Let_def)

lemma set_value_kind: "set_value f v h = Inr h' \<Longrightarrow> kind (h' a) = kind (h a)"
  by (auto simp: set_value_def split: kind.splits)

lemma init_loop_derivable:
  "(name, a) \<in> set fs \<Longrightarrow> kind (h a) = Derivable \<Longrightarrow> kwargs name = Some v \<Longrightarrow>
   \<exists>h'. init_loop fs self kwargs h = Inl (DeriableSetValueError, h')"
proof (induction fs arbitrary: h)
  case Nil
  then show ?case by simp
next
  case (Cons p fs)
  obtain n f where p: "p = (n, f)" by (cases p)
  show ?case
  proof (cases "kwargs n")
    case None
    with Cons.prems p have mem: "(name, a) \<in> set fs" by auto
    let ?h2 = "h(f := (h f)\<lparr>config_object := Some self\<rparr>)"
    have "kind (?h2 a) = Derivable"
      using Cons.prems(2) by auto
    then obtain h' where "init_loop fs self kwargs ?h2 = Inl (DeriableSetValueError, h')"
      using Cons.IH [of ?h2] mem Cons.prems(3) by blast
    then show ?thesis
      using None p by simp
  next
    case (Some w)
    show ?thesis
    proof (cases "set_value f w h")
      case (Inl e)
      then have "e = DeriableSetValueError"
        by (auto simp: set_value_def split: kind.splits)
      with Inl Some p show ?thesis by simp
    next
      case (Inr h1)
      then have "kind (h f) = Constant"
        by (auto simp: set_value_def split: kind.splits)
      with Cons.prems p have mem: "(name, a) \<in> set fs" by auto
      let ?h2 = "h1(f := (h1 f)\<lparr>config_object := Some self\<rparr>)"
      have "kind (?h2 a) = Derivable"
        using Cons.prems(2) set_value_kind [OF Inr, of a] set_value_kind [OF Inr, of f] by auto
      then obtain h' where "init_loop fs self kwargs ?h2 = Inl (DeriableSetValueError, h')"
        using Cons.IH [of ?h2] mem Cons.prems(3) by blast
      then show ?thesis
        using Some Inr p by simp
    qed
  qed
qed

text \<open>
  C5. \<^verbatim>\<open>set_value\<close> on a Derivable field raises \<^verbatim>\<open>DeriableSetValueError\<close> for every
  value; constructing an instance with a keyword that names a declared Derivable field
  raises the same error; \<^verbatim>\<open>set_value\<close> on a Constant field stores the value, whatever
  it is.
\<close>

theorem derivable_set_value_fails:
  "(kind (h a) = Derivable \<longrightarrow> set_value a v h = Inl DeriableSetValueError) \<and>
   (kind (h a) = Derivable \<and> (name, a) \<in> set (declared_fields (klass_of self)) \<and>
      kwargs name = Some v \<longrightarrow>
      (\<exists>h'. BaseConfigClass_init self kwargs h = Inl (DeriableSetValueError, h'))) \<and>
   (kind (h a) = Constant \<longrightarrow> set_value a v h = Inr (h(a := (h a)\<lparr>fvalue := v\<rparr>)))"
  using init_loop_derivable [of name a "declared_fields (klass_of self)" h kwargs v "self_id self"]
  by (auto simp: set_value_def BaseConfigClass_init_def)

lemma app_class_eq:
  "app_class = \<lparr>declared_fields = [(''project_name'', 0), (''secret_slug'', 1)],
     constant_fields = [(''project_name'', 0)], deriable_fields = [(''secret_slug'', 1)]\<rparr>"
  by (simp add: app_class_def ConfigMeta_new_def get_fields_def get_fields_by_mro_def
      ConfigClass_mro_def ConfigClass_def BaseConfigClass_mro_def BaseConfigClass_def
      object_mro_def fields_source_def OrderedDict_def is_field_def the_field_def app_heap_def
      declare_field_def Field_init_def new_object_def Let_def)

theorem derivable_set_value_fails_witness:
  "kind (app_heap 1) = Derivable \<and>
   (''secret_slug'', 1) \<in> set (declared_fields (klass_of (app_config 7))) \<and>
   set_value 1 (PyInt 5) app_heap = Inl DeriableSetValueError \<and>
   (\<exists>h'. BaseConfigClass_init (app_config 7) [''secret_slug'' \<mapsto> PyInt 5] app_heap =
      Inl (DeriableSetValueError, h')) \<and>
   kind (app_heap 0) = Constant \<and>
   set_value 0 (PyInt 5) app_heap = Inr (app_heap(0 := (app_heap 0)\<lparr>fvalue := PyInt 5\<rparr>))"
proof -
  have k1: "kind (app_heap 1) = Derivable"
    by (simp add: app_heap_def declare_field_def Field_init_def new_object_def)
  have k0: "kind (app_heap 0) = Constant"
    by (simp add: app_heap_def declare_field_def Field_init_def new_object_def)
  have mem: "(''secret_slug'', 1) \<in> set (declared_fields (klass_of (app_config 7)))"
    by (simp add: app_config_def app_class_eq)
  have kw: "[''secret_slug'' \<mapsto> PyInt 5] ''secret_slug'' = Some (PyInt 5)"
    by simp
  show ?thesis
    using derivable_set_value_fails [of app_heap 1 "PyInt 5" "''secret_slug''" "app_config 7"
        "[''secret_slug'' \<mapsto> PyInt 5]"]
      derivable_set_value_fails [of app_heap 0 "PyInt 5" "''secret_slug''" "app_config 7"
        "[''secret_slug'' \<mapsto> PyInt 5]"]
      k1 k0 mem kw
    by blast
qed

section \<open>from_dict and update\<close>

lemma set_value_Constant:
  "kind (h f) = Constant \<Longrightarrow> set_value f v h = Inr (h(f := (h f)\<lparr>fvalue := v\<rparr>))"
  by (simp add: set_value_def)

lemma update_loop_result:
  assumes "\<forall>f \<in> snd ` set cf. kind (h f) = Constant"
  shows "\<exists>h'. update_loop cf dct h = Inr h' \<and>
           (\<forall>a. h' a = (h a)\<lparr>fvalue := last_or (fvalue (h a)) (values_for cf dct a)\<rparr>)"
  using assms
proof (induction dct arbitrary: h)
  case Nil
  then show ?case by (simp add: values_for_def last_or_def)
next
  case (Cons p dct)
  obtain key v where p: "p = (key, v)" by (cases p)
  show ?case
  proof (cases "map_of cf key")
    case None
    from Cons.IH [of h] Cons.prems obtain h' where
      h': "update_loop cf dct h = Inr h'"
          "\<And>a. h' a = (h a)\<lparr>fvalue := last_or (fvalue (h a)) (values_for cf dct a)\<rparr>"
      by blast
    have "values_for cf (p # dct) a = values_for cf dct a" for a
      using None p by (simp add: values_for_def)
    with h' None p show ?thesis by simp
  next
    case (Some f)
    then have "f \<in> snd ` set cf" by (force dest: map_of_SomeD)
    then have kf: "kind (h f) = Constant" using Cons.prems by blast
    let ?h1 = "h(f := (h f)\<lparr>fvalue := v\<rparr>)"
    have sv: "set_value f v h = Inr ?h1" using kf by (rule set_value_Constant)
    have "\<forall>f' \<in> snd ` set cf. kind (?h1 f') = Constant"
      using Cons.prems by auto
    from Cons.IH [of ?h1, OF this] obtain h' where
      h': "update_loop cf dct ?h1 = Inr h'"
          "\<And>a. h' a = (?h1 a)\<lparr>fvalue := last_or (fvalue (?h1 a)) (values_for cf dct a)\<rparr>"
      by blast
    have vf: "values_for cf (p # dct) a = (if a = f then v # values_for cf dct a else values_for cf dct a)" for a
      using Some p by (auto simp: values_for_def)
    have "h' a = (h a)\<lparr>fvalue := last_or (fvalue (h a)) (values_for cf (p # dct) a)\<rparr>" for a
      unfolding h'(2) vf by (simp add: last_or_def)
    with h'(1) Some p sv show ?thesis by simp
  qed
qed

lemma init_loop_no_kwargs:
  "\<exists>h'. init_loop fs self Map.empty h = Inr h' \<and>
     (\<forall>a. h' a = (if a \<in> snd ` set fs then (h a)\<lparr>config_object := Some self\<rparr> else h a))"
proof (induction fs arbitrary: h)
  case Nil
  show ?case by simp
next
  case (Cons p fs)
  obtain n f where p: "p = (n, f)" by (cases p)
  let ?h1 = "h(f := (h f)\<lparr>config_object := Some self\<rparr>)"
  from Cons.IH [of ?h1] obtain h' where
    h': "init_loop fs self Map.empty ?h1 = Inr h'"
        "\<And>a. h' a = (if a \<in> snd ` set fs then (?h1 a)\<lparr>config_object := Some self\<rparr> else ?h1 a)"
    by blast
  have "h' a = (if a \<in> snd ` set (p # fs) then (h a)\<lparr>config_object := Some self\<rparr> else h a)" for a
    unfolding h'(2) using p by simp
  with h'(1) p show ?case by simp
qed


lemma registries_constant:
  "registries_agree h cls \<Longrightarrow> \<forall>f \<in> snd ` set (constant_fields cls). kind (h f) = Constant"
  by (auto simp: registries_agree_def)

lemma values_for_filter:
  "values_for cf (filter (\<lambda>(key, v). key \<in> fst ` set cf) dct) a = values_for cf dct a"
proof -
  have "map_of cf key = Some a \<Longrightarrow> key \<in> fst ` set cf" for key
    by (force dest: map_of_SomeD)
  then have "filter (\<lambda>(key, v). map_of cf key = Some a) (filter (\<lambda>(key, v). key \<in> fst ` set cf) dct)
      = filter (\<lambda>(key, v). map_of cf key = Some a) dct"
    by (induction dct) auto
  then show ?thesis by (simp add: values_for_def)
qed

lemma values_for_not_registered:
  "a \<notin> snd ` set cf \<Longrightarrow> values_for cf dct a = []"
proof -
  assume "a \<notin> snd ` set cf"
  then have "map_of cf key \<noteq> Some a" for key
    by (force dest: map_of_SomeD)
  then show ?thesis by (simp add: values_for_def)
qed

text \<open>
  C7. For every mapping, \<^verbatim>\<open>from_dict\<close> returns an instance without raising; the store it
  leaves is the one left by the mapping restricted to the keys that name constant
  fields, so every other key is ignored; each declared Field object is bound to the new
  instance and a field's value is the last value the mapping gives under a key naming it
  as a constant field; a field that is not a Constant, a Derivable in particular, keeps
  its value slot, its getter and its class.
\<close>

theorem from_dict_sets_only_constant_fields:
  assumes "registries_agree h cls"
  shows "\<exists>h'. from_dict cls new_id dct h = Inr (\<lparr>self_id = new_id, klass_of = cls\<rparr>, h') \<and>
     from_dict cls new_id (filter (\<lambda>(key, v). key \<in> fst ` set (constant_fields cls)) dct) h
       = Inr (\<lparr>self_id = new_id, klass_of = cls\<rparr>, h') \<and>
     (\<forall>a. h' a = (h a)\<lparr>config_object :=
                       (if a \<in> snd ` set (declared_fields cls) then Some new_id
                        else config_object (h a)),
                     fvalue := last_or (fvalue (h a)) (values_for (constant_fields cls) dct a)\<rparr>) \<and>
     (\<forall>a. kind (h a) \<noteq> Constant \<longrightarrow>
        values_for (constant_fields cls) dct a = [] \<and> fvalue (h' a) = fvalue (h a) \<and>
        getter_method (h' a) = getter_method (h a) \<and> kind (h' a) = kind (h a))"
proof -
  let ?cf = "constant_fields cls"
  let ?dct' = "filter (\<lambda>(key, v). key \<in> fst ` set ?cf) dct"
  obtain h1 where h1: "init_loop (declared_fields cls) new_id Map.empty h = Inr h1"
    "\<And>a. h1 a = (if a \<in> snd ` set (declared_fields cls)
                 then (h a)\<lparr>config_object := Some new_id\<rparr> else h a)"
    using init_loop_no_kwargs [of "declared_fields cls" new_id h] by blast
  have c0: "\<forall>f \<in> snd ` set ?cf. kind (h f) = Constant"
    using assms by (rule registries_constant)
  have c1: "\<forall>f \<in> snd ` set ?cf. kind (h1 f) = Constant"
    using c0 by (simp add: h1(2))
  obtain h2 where h2: "update_loop ?cf dct h1 = Inr h2"
    "\<And>a. h2 a = (h1 a)\<lparr>fvalue := last_or (fvalue (h1 a)) (values_for ?cf dct a)\<rparr>"
    using update_loop_result [OF c1, of dct] by blast
  obtain h3 where h3: "update_loop ?cf ?dct' h1 = Inr h3"
    "\<And>a. h3 a = (h1 a)\<lparr>fvalue := last_or (fvalue (h1 a)) (values_for ?cf ?dct' a)\<rparr>"
    using update_loop_result [OF c1, of ?dct'] by blast
  have "h3 = h2"
    by (rule ext) (simp add: h2(2) h3(2) values_for_filter)
  have run: "from_dict cls new_id dct h = Inr (\<lparr>self_id = new_id, klass_of = cls\<rparr>, h2)"
    using h1(1) h2(1) by (simp add: from_dict_def BaseConfigClass_init_def)
  have run': "from_dict cls new_id ?dct' h = Inr (\<lparr>self_id = new_id, klass_of = cls\<rparr>, h2)"
    using h1(1) h3(1) \<open>h3 = h2\<close> by (simp add: from_dict_def BaseConfigClass_init_def)
  have shape: "h2 a = (h a)\<lparr>config_object :=
                       (if a \<in> snd ` set (declared_fields cls) then Some new_id
                        else config_object (h a)),
                     fvalue := last_or (fvalue (h a)) (values_for ?cf dct a)\<rparr>" for a
    by (simp add: h2(2) h1(2))
  have other: "values_for ?cf dct a = [] \<and> fvalue (h2 a) = fvalue (h a) \<and>
        getter_method (h2 a) = getter_method (h a) \<and> kind (h2 a) = kind (h a)"
    if "kind (h a) \<noteq> Constant" for a
  proof -
    from that c0 have "a \<notin> snd ` set ?cf" by blast
    then have "values_for ?cf dct a = []" by (rule values_for_not_registered)
    then show ?thesis by (simp add: shape last_or_def)
  qed
  from run run' shape other show ?thesis by blast
qed


lemma app_registries_agree: "registries_agree app_heap app_class"
  by (simp add: registries_agree_def app_class_eq app_heap_def declare_field_def
      Field_init_def new_object_def)

theorem from_dict_sets_only_constant_fields_witness:
  "registries_agree app_heap app_class \<and>
   (\<exists>h'. from_dict app_class 7
            [(''project_name'', PyStr ''My App''), (''secret_slug'', PyStr ''x''),
             (''stage'', PyInt 1)] app_heap
          = Inr (\<lparr>self_id = 7, klass_of = app_class\<rparr>, h') \<and>
         from_dict app_class 7 [(''project_name'', PyStr ''My App'')] app_heap
          = Inr (\<lparr>self_id = 7, klass_of = app_class\<rparr>, h') \<and>
         fvalue (h' 0) = PyStr ''My App'' \<and> config_object (h' 0) = Some 7 \<and>
         fvalue (h' 1) = PyNone \<and> getter_method (h' 1) = Some 0 \<and>
         config_object (h' 1) = Some 7)"
proof -
  let ?dct = "[(''project_name'', PyStr ''My App''), (''secret_slug'', PyStr ''x''),
               (''stage'', PyInt 1)]"
  have flt: "filter (\<lambda>(key, v). key \<in> fst ` set (constant_fields app_class)) ?dct
      = [(''project_name'', PyStr ''My App'')]"
    by (simp add: app_class_eq)
  have v0: "values_for (constant_fields app_class) ?dct 0 = [PyStr ''My App'']"
    by (simp add: values_for_def app_class_eq)
  have v1: "values_for (constant_fields app_class) ?dct (Suc 0) = []"
    by (simp add: values_for_def app_class_eq)
  have d: "declared_fields app_class = [(''project_name'', 0), (''secret_slug'', Suc 0)]"
    by (simp add: app_class_eq)
  have f0: "fvalue (app_heap (Suc 0)) = PyNone" "getter_method (app_heap (Suc 0)) = Some 0"
    by (simp_all add: app_heap_def declare_field_def Field_init_def new_object_def)
  from from_dict_sets_only_constant_fields [OF app_registries_agree, of 7 ?dct]
  obtain h' where run:
    "from_dict app_class 7 ?dct app_heap = Inr (\<lparr>self_id = 7, klass_of = app_class\<rparr>, h')"
    and run': "from_dict app_class 7
       (filter (\<lambda>(key, v). key \<in> fst ` set (constant_fields app_class)) ?dct) app_heap
     = Inr (\<lparr>self_id = 7, klass_of = app_class\<rparr>, h')"
    and shape: "\<And>a. h' a = (app_heap a)\<lparr>config_object :=
                       (if a \<in> snd ` set (declared_fields app_class) then Some 7
                        else config_object (app_heap a)),
                     fvalue := last_or (fvalue (app_heap a))
                                 (values_for (constant_fields app_class) ?dct a)\<rparr>"
    by blast
  have "fvalue (h' 0) = PyStr ''My App''" "config_object (h' 0) = Some 7"
    by (simp_all add: shape v0 d last_or_def)
  moreover have "fvalue (h' 1) = PyNone" "getter_method (h' 1) = Some 0"
    "config_object (h' 1) = Some 7"
    by (simp_all add: shape v1 d last_or_def f0)
  moreover note run run' [unfolded flt] app_registries_agree
  ultimately show ?thesis by blast
qed

section \<open>to_dict and the dump guard\<close>

lemma keys_setitem: "fst ` set (setitem d k v) = insert k (fst ` set d)"
proof (induction d)
  case Nil
  show ?case by simp
next
  case (Cons p d)
  obtain k' v' where p: "p = (k', v')" by (cases p)
  show ?case
  proof (cases "k' = k")
    case True
    with p show ?thesis by simp
  next
    case False
    with p Cons.IH show ?thesis by auto
  qed
qed

lemma to_dict_loop_keys:
  "to_dict_loop cd fs cdd cp h acc = Inr d \<Longrightarrow>
   fst ` set d = fst ` set acc \<union> {n. \<exists>a v. (n, a) \<in> set fs \<and> get_value cd a cdd cp h = Inr v}"
proof (induction fs arbitrary: acc)
  case Nil
  then show ?case by simp
next
  case (Cons p fs)
  obtain n f where p: "p = (n, f)" by (cases p)
  show ?case
  proof (cases "get_value cd f cdd cp h")
    case (Inl e)
    with Cons.prems p have "e = DontDumpError" and "to_dict_loop cd fs cdd cp h acc = Inr d"
      by (auto split: if_splits)
    from Cons.IH [OF this(2)] Inl p show ?thesis by auto
  next
    case (Inr v)
    with Cons.prems p have "to_dict_loop cd fs cdd cp h (setitem acc n v) = Inr d" by simp
    from Cons.IH [OF this] Inr p show ?thesis by (auto simp: keys_setitem)
  qed
qed

lemma to_dict_loop_error_origin:
  "to_dict_loop cd fs cdd cp h acc = Inl e \<Longrightarrow>
   e \<noteq> DontDumpError \<and> (\<exists>(n, f) \<in> set fs. get_value cd f cdd cp h = Inl e)"
proof (induction fs arbitrary: acc)
  case Nil
  then show ?case by simp
next
  case (Cons p fs)
  obtain n f where p: "p = (n, f)" by (cases p)
  show ?case
  proof (cases "get_value cd f cdd cp h")
    case (Inl e')
    show ?thesis
    proof (cases "e' = DontDumpError")
      case True
      with Cons.prems p Inl have "to_dict_loop cd fs cdd cp h acc = Inl e" by simp
      from Cons.IH [OF this] show ?thesis by auto
    next
      case False
      with Cons.prems p Inl have "e = e'" by simp
      with False Inl p show ?thesis by auto
    qed
  next
    case (Inr v)
    with Cons.prems p have "to_dict_loop cd fs cdd cp h (setitem acc n v) = Inl e" by simp
    from Cons.IH [OF this] show ?thesis by auto
  qed
qed

lemma to_dict_loop_abort:
  "(n, f) \<in> set fs \<Longrightarrow> get_value cd f cdd cp h = Inl e \<Longrightarrow> e \<noteq> DontDumpError \<Longrightarrow>
   \<exists>e'. to_dict_loop cd fs cdd cp h acc = Inl e'"
proof (induction fs arbitrary: acc)
  case Nil
  then show ?case by simp
next
  case (Cons p fs)
  obtain n' f' where p: "p = (n', f')" by (cases p)
  show ?case
  proof (cases "p = (n, f)")
    case True
    with Cons.prems p show ?thesis by simp
  next
    case False
    with Cons.prems have mem: "(n, f) \<in> set fs" by simp
    show ?thesis
    proof (cases "get_value cd f' cdd cp h")
      case (Inl e')
      with Cons.IH [OF mem Cons.prems(2,3), of acc] p show ?thesis by simp
    next
      case (Inr v)
      with Cons.IH [OF mem Cons.prems(2,3), of "setitem acc n' v"] p show ?thesis by simp
    qed
  qed
qed

text \<open>
  C6, as the code has it. For a declared field of a registry with distinct names:
  \<^verbatim>\<open>to_dict\<close> never raises \<^verbatim>\<open>DontDumpError\<close>; any other error of the field's \<^verbatim>\<open>get_value\<close>
  makes the dump raise, and an error the dump raises is the error of some field's
  \<^verbatim>\<open>get_value\<close>; when the dump returns, the field's key is present exactly when its
  \<^verbatim>\<open>get_value\<close> did not raise \<^verbatim>\<open>DontDumpError\<close>. So with a true \<^verbatim>\<open>check_dont_dump\<close> a dont-dump
  field is absent, and with a false one every field is present unless its own getter
  raises \<^verbatim>\<open>DontDumpError\<close>.
\<close>

theorem to_dict_dump_guard:
  assumes "distinct (map fst (declared_fields (klass_of self)))"
    and "(name, a) \<in> set (declared_fields (klass_of self))"
  shows "to_dict cd self cdd cp h \<noteq> Inl DontDumpError \<and>
     (\<forall>e. get_value cd a cdd cp h = Inl e \<and> e \<noteq> DontDumpError \<longrightarrow>
        (\<exists>e'. e' \<noteq> DontDumpError \<and> to_dict cd self cdd cp h = Inl e')) \<and>
     (\<forall>e. to_dict cd self cdd cp h = Inl e \<longrightarrow>
        (\<exists>(n, f) \<in> set (declared_fields (klass_of self)). get_value cd f cdd cp h = Inl e)) \<and>
     (\<forall>d. to_dict cd self cdd cp h = Inr d \<longrightarrow>
        ((name \<in> fst ` set d) = (get_value cd a cdd cp h \<noteq> Inl DontDumpError)) \<and>
        (truthy cdd \<and> dont_dump (h a) \<longrightarrow> name \<notin> fst ` set d) \<and>
        (\<not> truthy cdd \<and>
         (\<forall>g config. getter_method (h a) = Some g \<and> config_object (h a) = Some config \<longrightarrow>
            getters cd g config h \<noteq> Inl DontDumpError) \<longrightarrow> name \<in> fst ` set d))"
proof -
  let ?fs = "declared_fields (klass_of self)"
  have unique: "f = a" if "(name, f) \<in> set ?fs" for f
    using assms that by (meson eq_key_imp_eq_value)
  have no_signal: "to_dict cd self cdd cp h \<noteq> Inl DontDumpError"
    using to_dict_loop_error_origin [of cd ?fs cdd cp h "[]" DontDumpError]
    by (auto simp: to_dict_def)
  have abort: "\<exists>e'. e' \<noteq> DontDumpError \<and> to_dict cd self cdd cp h = Inl e'"
    if "get_value cd a cdd cp h = Inl e" "e \<noteq> DontDumpError" for e
  proof -
    from to_dict_loop_abort [OF assms(2) that, of "[]"] obtain e' where
      "to_dict_loop cd ?fs cdd cp h [] = Inl e'" by blast
    with to_dict_loop_error_origin [OF this] show ?thesis by (auto simp: to_dict_def)
  qed
  have origin: "\<exists>(n, f) \<in> set ?fs. get_value cd f cdd cp h = Inl e"
    if "to_dict cd self cdd cp h = Inl e" for e
    using to_dict_loop_error_origin [of cd ?fs cdd cp h "[]" e] that by (simp add: to_dict_def)
  have dump: "((name \<in> fst ` set d) = (get_value cd a cdd cp h \<noteq> Inl DontDumpError)) \<and>
        (truthy cdd \<and> dont_dump (h a) \<longrightarrow> name \<notin> fst ` set d) \<and>
        (\<not> truthy cdd \<and>
         (\<forall>g config. getter_method (h a) = Some g \<and> config_object (h a) = Some config \<longrightarrow>
            getters cd g config h \<noteq> Inl DontDumpError) \<longrightarrow> name \<in> fst ` set d)"
    if ret: "to_dict cd self cdd cp h = Inr d" for d
  proof -
    have ks: "fst ` set d = {n. \<exists>f v. (n, f) \<in> set ?fs \<and> get_value cd f cdd cp h = Inr v}"
      using to_dict_loop_keys [of cd ?fs cdd cp h "[]" d] ret by (simp add: to_dict_def)
    have keys: "(name \<in> fst ` set d) = (\<exists>v. get_value cd a cdd cp h = Inr v)"
    proof
      assume "name \<in> fst ` set d"
      with ks obtain f v where "(name, f) \<in> set ?fs" "get_value cd f cdd cp h = Inr v"
        by blast
      with unique show "\<exists>v. get_value cd a cdd cp h = Inr v" by blast
    next
      assume "\<exists>v. get_value cd a cdd cp h = Inr v"
      with assms(2) have "name \<in> {n. \<exists>f v. (n, f) \<in> set ?fs \<and> get_value cd f cdd cp h = Inr v}"
        by blast
      with ks show "name \<in> fst ` set d" by simp
    qed
    have no_error: "e = DontDumpError" if "get_value cd a cdd cp h = Inl e" for e
    proof (rule ccontr)
      assume "e \<noteq> DontDumpError"
      from abort [OF that this] ret show False by simp
    qed
    have iff: "(name \<in> fst ` set d) = (get_value cd a cdd cp h \<noteq> Inl DontDumpError)"
    proof (cases "get_value cd a cdd cp h")
      case (Inl e)
      with no_error show ?thesis by (simp add: keys)
    next
      case (Inr v)
      then show ?thesis by (simp add: keys)
    qed
    have guarded: "name \<notin> fst ` set d" if "truthy cdd" "dont_dump (h a)"
    proof -
      have "get_value cd a cdd cp h = Inl AttributeError \<or> get_value cd a cdd cp h = Inl DontDumpError"
        using that by (simp add: get_value_def split: option.splits)
      then show ?thesis by (auto simp: keys)
    qed
    have open_dump: "name \<in> fst ` set d"
      if "\<not> truthy cdd"
        "\<forall>g config. getter_method (h a) = Some g \<and> config_object (h a) = Some config \<longrightarrow>
            getters cd g config h \<noteq> Inl DontDumpError"
    proof -
      have "get_value cd a cdd cp h \<noteq> Inl DontDumpError"
        using that by (simp add: get_value_def split: option.splits)
      then show ?thesis using iff by simp
    qed
    from iff guarded open_dump show ?thesis by blast
  qed
  from no_signal abort origin dump show ?thesis by blast
qed


lemma app_bound_eq:
  "app_bound 0 = (app_heap 0)\<lparr>config_object := Some 7\<rparr> \<and>
   app_bound (Suc 0) = (app_heap (Suc 0))\<lparr>config_object := Some 7\<rparr>"
  by (simp add: app_bound_def store_after_def BaseConfigClass_init_def app_config_def app_class_eq)

text \<open>
  C6 as stated says that \<^verbatim>\<open>to_dict(check_dont_dump=False)\<close> contains the key of a
  dont-dump field. With a getter that raises \<^verbatim>\<open>DontDumpError\<close> the key is left out.
\<close>

theorem to_dict_getter_signal_counterexample:
  "dont_dump (app_bound 1) \<and>
   declared_fields (klass_of (app_config 7)) = [(''project_name'', 0), (''secret_slug'', 1)] \<and>
   to_dict raising_code (app_config 7) (PyBool False) (PyBool False) app_bound
     = Inr [(''project_name'', PyStr ''app'')]"
  by (simp add: app_bound_eq to_dict_def app_config_def app_class_eq get_value_def
      raising_code_def app_heap_def declare_field_def Field_init_def new_object_def)

theorem to_dict_dump_guard_witness:
  "distinct (map fst (declared_fields (klass_of (app_config 7)))) \<and>
   (''secret_slug'', 1) \<in> set (declared_fields (klass_of (app_config 7))) \<and>
   dont_dump (app_bound 1) \<and>
   to_dict app_code (app_config 7) (PyBool True) (PyBool False) app_bound
     = Inr [(''project_name'', PyStr ''app'')] \<and>
   ''secret_slug'' \<notin> fst ` set [(''project_name'', PyStr ''app'')] \<and>
   to_dict app_code (app_config 7) (PyBool False) (PyBool False) app_bound
     = Inr [(''project_name'', PyStr ''app''), (''secret_slug'', PyStr ''app'')] \<and>
   ''secret_slug'' \<in> fst ` set [(''project_name'', PyStr ''app''), (''secret_slug'', PyStr ''app'')] \<and>
   (\<exists>e'. e' \<noteq> DontDumpError \<and>
      to_dict app_code (app_config 7) (PyBool False) (PyBool False) app_heap = Inl e')"
proof -
  have dist: "distinct (map fst (declared_fields (klass_of (app_config 7))))"
    by (simp add: app_config_def app_class_eq)
  have mem: "(''secret_slug'', 1) \<in> set (declared_fields (klass_of (app_config 7)))"
    by (simp add: app_config_def app_class_eq)
  have dd: "dont_dump (app_bound 1)"
    by (simp add: app_bound_eq app_heap_def declare_field_def Field_init_def new_object_def)
  have t: "to_dict app_code (app_config 7) (PyBool True) (PyBool False) app_bound
     = Inr [(''project_name'', PyStr ''app'')]"
    by (simp add: app_bound_eq to_dict_def app_config_def app_class_eq get_value_def
      app_code_def app_heap_def declare_field_def Field_init_def new_object_def)
  have f: "to_dict app_code (app_config 7) (PyBool False) (PyBool False) app_bound
     = Inr [(''project_name'', PyStr ''app''), (''secret_slug'', PyStr ''app'')]"
    by (simp add: app_bound_eq to_dict_def app_config_def app_class_eq get_value_def
      app_code_def app_heap_def declare_field_def Field_init_def new_object_def)
  have g: "get_value app_code 1 (PyBool False) (PyBool False) app_heap = Inl AttributeError"
    by (simp add: get_value_def app_heap_def declare_field_def Field_init_def new_object_def)
  have getter: "\<forall>g config. getter_method (app_bound 1) = Some g \<and> config_object (app_bound 1) = Some config \<longrightarrow>
            getters app_code g config app_bound \<noteq> Inl DontDumpError"
    by (simp add: app_code_def)
  note guard = to_dict_dump_guard [OF dist mem]
  have "''secret_slug'' \<notin> fst ` set [(''project_name'', PyStr ''app'')]"
    using guard [of app_code "PyBool True" "PyBool False" app_bound] t dd by auto
  moreover have "''secret_slug'' \<in> fst ` set [(''project_name'', PyStr ''app''), (''secret_slug'', PyStr ''app'')]"
    using guard [of app_code "PyBool False" "PyBool False" app_bound] f getter by auto
  moreover have "\<exists>e'. e' \<noteq> DontDumpError \<and> to_dict app_code (app_config 7) (PyBool False) (PyBool False) app_heap = Inl e'"
    using guard [of app_code "PyBool False" "PyBool False" app_heap] g by blast
  ultimately show ?thesis using dist mem dd t f by blast
qed

section \<open>CloudFormation export: partial on keys with an empty segment\<close>










lemma camel_case_examples:
  "camel_case ''s3_bucket_name'' = ''S3BucketName'' \<and> camel_case ''stage'' = ''Stage''"
  by code_simp



section \<open>Instances of one schema share its Field objects\<close>











section \<open>The registry of a schema class\<close>

subsection \<open>Ordered dicts\<close>

lemma setitems_Nil: "setitems d [] = d"
  by (simp add: setitems_def)

lemma setitems_Cons: "setitems d ((k, v) # ps) = setitems (setitem d k v) ps"
  by (simp add: setitems_def)

lemma OrderedDict_append: "OrderedDict (xs @ ys) = setitems (OrderedDict xs) ys"
  by (simp add: OrderedDict_def setitems_def)

lemma keys_of_setitem:
  "map fst (setitem d k v) = (if k \<in> set (map fst d) then map fst d else map fst d @ [k])"
proof (induction d)
  case Nil
  show ?case by simp
next
  case (Cons p d)
  obtain k' v' where p: "p = (k', v')" by (cases p)
  show ?case
  proof (cases "k' = k")
    case True
    with p show ?thesis by simp
  next
    case False
    with p Cons.IH show ?thesis by simp
  qed
qed

lemma distinct_setitem: "distinct (map fst d) \<Longrightarrow> distinct (map fst (setitem d k v))"
  by (simp add: keys_of_setitem)

lemma map_of_setitem: "map_of (setitem d k v) = (map_of d)(k \<mapsto> v)"
proof (induction d)
  case Nil
  show ?case by simp
next
  case (Cons p d)
  obtain k' v' where p: "p = (k', v')" by (cases p)
  show ?case
  proof (cases "k' = k")
    case True
    with p show ?thesis by (simp add: fun_eq_iff)
  next
    case False
    with p Cons.IH show ?thesis by (simp add: fun_eq_iff)
  qed
qed

lemma distinct_setitems: "distinct (map fst d) \<Longrightarrow> distinct (map fst (setitems d ps))"
proof (induction ps arbitrary: d)
  case Nil
  then show ?case by (simp add: setitems_Nil)
next
  case (Cons p ps)
  obtain k v where p: "p = (k, v)" by (cases p)
  from Cons.prems have "distinct (map fst (setitem d k v))" by (rule distinct_setitem)
  from Cons.IH [OF this] p show ?case by (simp add: setitems_Cons)
qed

lemma distinct_OrderedDict: "distinct (map fst (OrderedDict ps))"
  using distinct_setitems [of "[]" ps] by (simp add: OrderedDict_def setitems_def)

lemma keys_of_setitems:
  "distinct (map fst ps) \<Longrightarrow>
   map fst (setitems d ps) = map fst d @ filter (\<lambda>k. k \<notin> set (map fst d)) (map fst ps)"
proof (induction ps arbitrary: d)
  case Nil
  show ?case by (simp add: setitems_Nil)
next
  case (Cons p ps)
  obtain k v where p: "p = (k, v)" by (cases p)
  from Cons.prems p have dist: "distinct (map fst ps)" and fresh: "k \<notin> set (map fst ps)"
    by simp_all
  note IH = Cons.IH [OF dist, of "setitem d k v"]
  show ?case
  proof (cases "k \<in> set (map fst d)")
    case True
    then have "map fst (setitem d k v) = map fst d" by (simp add: keys_of_setitem)
    with IH True p show ?thesis by (simp add: setitems_Cons)
  next
    case False
    then have keys: "map fst (setitem d k v) = map fst d @ [k]" by (simp add: keys_of_setitem)
    have "filter (\<lambda>k'. k' \<notin> set (map fst d @ [k])) (map fst ps)
        = filter (\<lambda>k'. k' \<notin> set (map fst d)) (map fst ps)"
      using fresh by (intro filter_cong) auto
    with IH keys False p show ?thesis by (simp add: setitems_Cons)
  qed
qed

lemma map_of_setitems: "map_of (setitems d ps) = map_of d ++ map_of (rev ps)"
proof (induction ps arbitrary: d)
  case Nil
  show ?case by (simp add: setitems_Nil)
next
  case (Cons p ps)
  obtain k v where p: "p = (k, v)" by (cases p)
  have "map_of (setitems (setitem d k v) ps) = map_of (setitem d k v) ++ map_of (rev ps)"
    by (rule Cons.IH)
  also have "\<dots> = (map_of d)(k \<mapsto> v) ++ map_of (rev ps)"
    by (simp only: map_of_setitem)
  also have "\<dots> = map_of d ++ map_of (rev (p # ps))"
    using p by (simp add: fun_eq_iff map_add_def split: option.splits)
  finally show ?case using p by (simp add: setitems_Cons)
qed

lemma map_of_rev_distinct: "distinct (map fst ps) \<Longrightarrow> map_of (rev ps) = map_of ps"
  by (rule iffD2 [OF map_of_inject_set]) (simp_all add: rev_map [symmetric])

lemma alist_eqI:
  assumes "map fst xs = map fst ys" and "map_of xs = map_of ys" and "distinct (map fst xs)"
  shows "xs = ys"
proof -
  have rebuild: "map (\<lambda>k. (k, the (map_of zs k))) (map fst zs) = zs" if "distinct (map fst zs)"
    for zs :: "('a \<times> 'b) list"
    using that
  proof (induction zs)
    case Nil
    show ?case by simp
  next
    case (Cons z zs)
    obtain k v where z: "z = (k, v)" by (cases z)
    from Cons.prems z have fresh: "k \<notin> fst ` set zs" and dist: "distinct (map fst zs)"
      by simp_all
    have "map (\<lambda>k'. (k', the (map_of (z # zs) k'))) (map fst zs)
        = map (\<lambda>k'. (k', the (map_of zs k'))) (map fst zs)"
      using fresh z by (intro map_cong) auto
    with Cons.IH [OF dist] z show ?case by simp
  qed
  from assms have "distinct (map fst ys)" by simp
  from rebuild [OF assms(3)] rebuild [OF this] assms(1,2) show ?thesis by simp
qed


lemma distinct_keys_sort_key:
  "distinct (map fst (sort_key f xs)) = distinct (map fst xs)"
  by (simp add: distinct_map)

lemma map_of_sort_key:
  "distinct (map fst xs) \<Longrightarrow> map_of (sort_key f xs) = map_of xs"
  by (rule iffD2 [OF map_of_inject_set]) (simp_all add: distinct_keys_sort_key)

lemma map_of_filter_fresh:
  "map_of (filter (\<lambda>p. fst p \<notin> A) xs) k = (if k \<in> A then None else map_of xs k)"
  by (induction xs) auto

lemma new_entries_of_setitems:
  assumes "distinct (map fst D)" and "distinct (map fst cls)"
  shows "filter (\<lambda>p. fst p \<notin> set (map fst D)) (setitems D cls)
       = filter (\<lambda>p. fst p \<notin> set (map fst D)) cls"
proof (rule alist_eqI)
  let ?new = "\<lambda>k. k \<notin> set (map fst D)"
  have "filter ?new (map fst D) = []" by (simp add: filter_empty_conv)
  then have "filter ?new (map fst (setitems D cls)) = filter ?new (map fst cls)"
    by (simp add: keys_of_setitems [OF assms(2)])
  then show "map fst (filter (\<lambda>p. ?new (fst p)) (setitems D cls))
      = map fst (filter (\<lambda>p. ?new (fst p)) cls)"
    by (simp add: filter_map comp_def)
  show "map_of (filter (\<lambda>p. ?new (fst p)) (setitems D cls))
      = map_of (filter (\<lambda>p. ?new (fst p)) cls)"
  proof (rule ext)
    fix k
    show "map_of (filter (\<lambda>p. ?new (fst p)) (setitems D cls)) k
        = map_of (filter (\<lambda>p. ?new (fst p)) cls) k"
    proof (cases "?new k")
      case True
      then have "map_of D k = None" by (simp add: map_of_eq_None_iff)
      then have "map_of (setitems D cls) k = map_of cls k"
        by (simp add: map_of_setitems map_of_rev_distinct [OF assms(2)] map_add_def
            split: option.splits)
      with True show ?thesis by (simp add: map_of_filter_fresh)
    next
      case False
      then show ?thesis by (simp add: map_of_filter_fresh)
    qed
  qed
  show "distinct (map fst (filter (\<lambda>p. ?new (fst p)) (setitems D cls)))"
    using distinct_setitems [OF assms(1), of cls] by (rule distinct_map_filter)
qed

lemma setitems_resorted:
  assumes dD: "distinct (map fst D)" and dc: "distinct (map fst cls)"
    and sc: "sorted (map f cls)"
  shows "setitems D (sort_key f (setitems D cls)) = setitems D cls"
proof (rule alist_eqI)
  let ?D' = "setitems D cls"
  let ?S = "sort_key f ?D'"
  let ?new = "\<lambda>k. k \<notin> set (map fst D)"
  have dD': "distinct (map fst ?D')" using dD by (rule distinct_setitems)
  have dS: "distinct (map fst ?S)" using dD' by (simp add: distinct_keys_sort_key)
  have "filter ?new (map fst ?S) = map fst (filter (\<lambda>p. ?new (fst p)) ?S)"
    by (simp add: filter_map comp_def)
  also have "\<dots> = map fst (sort_key f (filter (\<lambda>p. ?new (fst p)) ?D'))"
    by (simp only: filter_sort)
  also have "\<dots> = map fst (sort_key f (filter (\<lambda>p. ?new (fst p)) cls))"
    by (simp only: new_entries_of_setitems [OF dD dc])
  also have "\<dots> = map fst (filter (\<lambda>p. ?new (fst p)) cls)"
    using sorted_filter [OF sc] by (simp only: sort_key_id_if_sorted)
  also have "\<dots> = filter ?new (map fst cls)"
    by (simp add: filter_map comp_def)
  finally have "filter ?new (map fst ?S) = filter ?new (map fst cls)" .
  then show "map fst (setitems D ?S) = map fst ?D'"
    by (simp add: keys_of_setitems [OF dS] keys_of_setitems [OF dc])
  have "map_of (setitems D ?S) = map_of D ++ map_of ?D'"
    by (simp add: map_of_setitems map_of_rev_distinct [OF dS] map_of_sort_key [OF dD'])
  also have "\<dots> = map_of ?D'"
    by (simp add: map_of_setitems fun_eq_iff map_add_def split: option.splits)
  finally show "map_of (setitems D ?S) = map_of ?D'" .
  show "distinct (map fst (setitems D ?S))" using dD by (rule distinct_setitems)
qed


subsection \<open>The registry along a single-inheritance chain\<close>

lemma cls_fields_eq:
  "cls_fields h attrs = sort_key (\<lambda>pair. creation_index (h (snd pair)))
     (map (\<lambda>(n, x). (n, the_field x)) (filter (\<lambda>(n, x). is_field x) attrs))"
  by (simp add: cls_fields_def get_fields_def)

lemma cls_fields_sorted:
  "sorted (map (\<lambda>pair. creation_index (h (snd pair))) (cls_fields h attrs))"
  by (simp only: cls_fields_eq sorted_sort_key)

lemma cls_fields_distinct:
  assumes "distinct (map fst attrs)"
  shows "distinct (map fst (cls_fields h attrs))"
proof -
  have "map fst (map (\<lambda>(n, x). (n, the_field x)) (filter (\<lambda>(n, x). is_field x) attrs))
      = map fst (filter (\<lambda>(n, x). is_field x) attrs)"
    by (simp add: case_prod_beta)
  moreover have "distinct (map fst (filter (\<lambda>(n, x). is_field x) attrs))"
    using assms by (rule distinct_map_filter)
  ultimately show ?thesis by (simp only: cls_fields_eq distinct_keys_sort_key)
qed

lemma cls_fields_set:
  "set (cls_fields h attrs) = {(n, a). (n, AField a) \<in> set attrs}"
proof -
  have "(n, a) \<in> set (cls_fields h attrs) \<longleftrightarrow> (n, AField a) \<in> set attrs" for n a
  proof
    assume "(n, a) \<in> set (cls_fields h attrs)"
    then obtain x where "(n, x) \<in> set attrs" "is_field x" "a = the_field x"
      by (auto simp: cls_fields_eq)
    then show "(n, AField a) \<in> set attrs"
      by (cases x) (simp_all add: is_field_def the_field_def)
  next
    assume "(n, AField a) \<in> set attrs"
    then have "(n, the_field (AField a)) \<in> (\<lambda>(n, x). (n, the_field x)) `
        {p \<in> set attrs. case p of (n, x) \<Rightarrow> is_field x}"
      by (force simp: is_field_def)
    then show "(n, a) \<in> set (cls_fields h attrs)"
      by (simp add: cls_fields_eq the_field_def)
  qed
  then show ?thesis by auto
qed

lemma the_field_AField:
  "map (\<lambda>(n, x). (n, the_field x)) (map (\<lambda>(n, a). (n, AField a)) xs) = xs"
  by (induction xs) (auto simp: the_field_def)

lemma is_field_AField:
  "filter (\<lambda>(n, x). is_field x) (map (\<lambda>(n, a). (n, AField a)) xs)
     = map (\<lambda>(n, a). (n, AField a)) xs"
  by (induction xs) (auto simp: is_field_def)

lemma fields_of_schema:
  "fst (get_fields h (fields_source (Schema k)) False True)
     = sort_key (\<lambda>pair. creation_index (h (snd pair))) (declared_fields k)"
  by (simp add: get_fields_def fields_source_def is_field_AField the_field_AField del: map_map)

lemma get_fields_by_mro_Cons:
  "get_fields_by_mro h (e # ms) True
     = get_fields_by_mro h ms True @ fst (get_fields h (fields_source e) False True)"
  by (simp add: get_fields_by_mro_def)

lemma declared_fields_ConfigMeta_new:
  "declared_fields (ConfigMeta_new h attrs ms)
     = setitems (OrderedDict (get_fields_by_mro h ms True)) (cls_fields h attrs)"
  by (simp add: ConfigMeta_new_def Let_def OrderedDict_append cls_fields_def)

lemma registry_consistent_ConfigClass: "registry_consistent h (ConfigClass_mro h)"
  by (simp add: registry_consistent_def ConfigClass_mro_def ConfigClass_def
      BaseConfigClass_mro_def BaseConfigClass_def object_mro_def parent_registry_def
      ConfigMeta_new_def get_fields_by_mro_def get_fields_def fields_source_def
      OrderedDict_def is_field_def Let_def)

lemma registry_consistent_class_statement:
  assumes inv: "registry_consistent h ms" and dist: "distinct (map fst attrs)"
  shows "registry_consistent h (class_statement h ms attrs)"
proof -
  let ?f = "\<lambda>pair. creation_index (h (snd pair))"
  let ?D = "OrderedDict (get_fields_by_mro h ms True)"
  let ?K = "ConfigMeta_new h attrs ms"
  have reg: "declared_fields ?K = setitems ?D (cls_fields h attrs)"
    by (rule declared_fields_ConfigMeta_new)
  have "OrderedDict (get_fields_by_mro h (Schema ?K # ms) True)
      = setitems ?D (sort_key ?f (declared_fields ?K))"
    by (simp only: get_fields_by_mro_Cons OrderedDict_append fields_of_schema)
  also have "\<dots> = setitems ?D (sort_key ?f (setitems ?D (cls_fields h attrs)))"
    by (simp only: reg)
  also have "\<dots> = setitems ?D (cls_fields h attrs)"
    using distinct_OrderedDict cls_fields_distinct [OF dist] cls_fields_sorted
    by (rule setitems_resorted)
  finally show ?thesis
    by (simp add: registry_consistent_def class_statement_def parent_registry_def reg)
qed

lemma registry_consistent_foldl:
  "registry_consistent h ms \<Longrightarrow> \<forall>b \<in> set bodies. distinct (map fst b) \<Longrightarrow>
   registry_consistent h (foldl (class_statement h) ms bodies)"
proof (induction bodies arbitrary: ms)
  case Nil
  then show ?case by simp
next
  case (Cons b bodies)
  from Cons.prems have "registry_consistent h (class_statement h ms b)"
    by (simp add: registry_consistent_class_statement)
  with Cons.IH [of "class_statement h ms b"] Cons.prems(2) show ?case by simp
qed

lemma registry_consistent_class_chain:
  "\<forall>b \<in> set bodies. distinct (map fst b) \<Longrightarrow> registry_consistent h (class_chain h bodies)"
  unfolding class_chain_def
  using registry_consistent_ConfigClass by (rule registry_consistent_foldl)

lemma chain_registry_snoc:
  "chain_registry h (bodies @ [attrs])
     = declared_fields (ConfigMeta_new h attrs (class_chain h bodies))"
  by (simp add: chain_registry_def class_chain_def class_statement_def parent_registry_def)

lemma chain_registry_setitems:
  assumes "\<forall>b \<in> set bodies. distinct (map fst b)"
  shows "chain_registry h (bodies @ [attrs])
     = setitems (chain_registry h bodies) (cls_fields h attrs)"
proof -
  have "OrderedDict (get_fields_by_mro h (class_chain h bodies) True) = chain_registry h bodies"
    using registry_consistent_class_chain [OF assms, of h]
    by (simp add: registry_consistent_def chain_registry_def)
  then show ?thesis
    by (simp only: chain_registry_snoc declared_fields_ConfigMeta_new)
qed

text \<open>
  C3, for single inheritance. Along a chain of class statements below \<^verbatim>\<open>ConfigClass\<close>, each
  with one base, the registry of a class is built from the registry of its base: the
  names of the base's registry come first, in the order they have there (so the fields
  declared by the ancestors, most-base class first), then the names the class newly
  declares, in creation order; a name the class body declares maps to the Field object
  of the class body, and if the base already has the name it keeps the position it has
  in the base's registry; every other name maps to what it maps to in the base.
\<close>

theorem registry_of_single_inheritance_chain:
  assumes "\<forall>b \<in> set bodies. distinct (map fst b)" and "distinct (map fst attrs)"
  shows "chain_registry h [] = [] \<and>
     chain_registry h (bodies @ [attrs])
       = declared_fields (ConfigMeta_new h attrs (class_chain h bodies)) \<and>
     map fst (chain_registry h (bodies @ [attrs]))
       = map fst (chain_registry h bodies) @
         filter (\<lambda>name. name \<notin> set (map fst (chain_registry h bodies)))
           (map fst (cls_fields h attrs)) \<and>
     sorted (map (\<lambda>pair. creation_index (h (snd pair))) (cls_fields h attrs)) \<and>
     (\<forall>name field. (name, AField field) \<in> set attrs \<longrightarrow>
        map_of (chain_registry h (bodies @ [attrs])) name = Some field) \<and>
     (\<forall>name. name \<notin> fst ` set (cls_fields h attrs) \<longrightarrow>
        map_of (chain_registry h (bodies @ [attrs])) name
          = map_of (chain_registry h bodies) name)"
proof -
  let ?P = "chain_registry h bodies"
  let ?own = "cls_fields h attrs"
  have d_own: "distinct (map fst ?own)" using assms(2) by (rule cls_fields_distinct)
  have reg: "chain_registry h (bodies @ [attrs]) = setitems ?P ?own"
    using assms(1) by (rule chain_registry_setitems)
  have empty: "chain_registry h [] = []"
    by (simp add: chain_registry_def class_chain_def ConfigClass_mro_def ConfigClass_def
        BaseConfigClass_mro_def BaseConfigClass_def object_mro_def parent_registry_def
        ConfigMeta_new_def get_fields_by_mro_def get_fields_def fields_source_def
        OrderedDict_def is_field_def Let_def)
  have keys: "map fst (chain_registry h (bodies @ [attrs]))
       = map fst ?P @ filter (\<lambda>name. name \<notin> set (map fst ?P)) (map fst ?own)"
    by (simp only: reg keys_of_setitems [OF d_own])
  have own: "map_of (chain_registry h (bodies @ [attrs])) name = Some field"
    if "(name, AField field) \<in> set attrs" for name field
  proof -
    from that have "(name, field) \<in> set ?own" by (simp add: cls_fields_set)
    with d_own have "map_of ?own name = Some field" by simp
    then show ?thesis
      by (simp add: reg map_of_setitems map_of_rev_distinct [OF d_own])
  qed
  have inherited: "map_of (chain_registry h (bodies @ [attrs])) name = map_of ?P name"
    if "name \<notin> fst ` set ?own" for name
  proof -
    from that have "map_of ?own name = None" by (simp add: map_of_eq_None_iff)
    then show ?thesis
      by (simp add: reg map_of_setitems map_of_rev_distinct [OF d_own] map_add_def)
  qed
  from empty chain_registry_snoc [of h bodies attrs] keys cls_fields_sorted [of h attrs]
    own inherited
  show ?thesis by blast
qed


lemmas builder_defs =
  ConfigMeta_new_def get_fields_def get_fields_by_mro_def ConfigClass_mro_def ConfigClass_def
  BaseConfigClass_mro_def BaseConfigClass_def object_mro_def fields_source_def OrderedDict_def
  is_field_def the_field_def class_statement_def Let_def

lemma diamond_heap_index:
  "creation_index (diamond_heap 0) = 0" "creation_index (diamond_heap (Suc 0)) = 1"
  "creation_index (diamond_heap 2) = 2" "creation_index (diamond_heap 3) = 3"
  by (simp_all add: diamond_heap_def declare_field_def Field_init_def new_object_def)

lemma Base_mro_eq:
  "Base_mro = Schema \<lparr>declared_fields = [(''x'', 0), (''y'', 1)],
       constant_fields = [(''x'', 0), (''y'', 1)], deriable_fields = []\<rparr>
     # ConfigClass_mro diamond_heap"
  by (simp add: Base_mro_def builder_defs diamond_heap_index)
     (simp add: diamond_heap_def declare_field_def Field_init_def new_object_def)

lemma Left_mro_eq:
  "Left_mro = Schema \<lparr>declared_fields = [(''x'', 0), (''y'', 2)],
       constant_fields = [(''x'', 0), (''y'', 2)], deriable_fields = []\<rparr> # Base_mro"
  by (simp add: Left_mro_def Base_mro_eq builder_defs diamond_heap_index)
     (simp add: diamond_heap_def declare_field_def Field_init_def new_object_def)

lemma Right_mro_eq:
  "Right_mro = Schema \<lparr>declared_fields = [(''x'', 3), (''y'', 1)],
       constant_fields = [(''x'', 3), (''y'', 1)], deriable_fields = []\<rparr> # Base_mro"
  by (simp add: Right_mro_def Base_mro_eq builder_defs diamond_heap_index)
     (simp add: diamond_heap_def declare_field_def Field_init_def new_object_def)

text \<open>
  C3 as stated speaks of every schema class. With two bases the name \<^verbatim>\<open>x\<close>, which \<^verbatim>\<open>Right\<close>
  declares again, maps in the registry of \<^verbatim>\<open>Diamond\<close> to the Field object of \<^verbatim>\<open>Base\<close> and not to
  the one of \<^verbatim>\<open>Right\<close>: the registry of \<^verbatim>\<open>Left\<close>, which comes later in the walk, still holds
  the \<^verbatim>\<open>x\<close> it inherited from \<^verbatim>\<open>Base\<close>.
\<close>

theorem registry_diamond_counterexample:
  "parent_registry Base_mro = [(''x'', 0), (''y'', 1)] \<and>
   parent_registry Left_mro = [(''x'', 0), (''y'', 2)] \<and>
   parent_registry Right_mro = [(''x'', 3), (''y'', 1)] \<and>
   declared_fields Diamond_class = [(''x'', 0), (''y'', 2)] \<and>
   map_of (declared_fields Diamond_class) ''x'' \<noteq> map_of (parent_registry Right_mro) ''x''"
proof -
  have "declared_fields Diamond_class = [(''x'', 0), (''y'', 2)]"
    by (simp add: Diamond_class_def Left_mro_eq Right_mro_eq Base_mro_eq builder_defs
        diamond_heap_index)
  then show ?thesis
    by (simp add: parent_registry_def Left_mro_eq Right_mro_eq Base_mro_eq)
qed

theorem registry_of_single_inheritance_chain_witness:
  "distinct (map fst [(''x'', AField 0), (''y'', AField 1)]) \<and>
   distinct (map fst [(''z'', AField 3), (''x'', AField 2), (''__doc__'', AOther)]) \<and>
   chain_registry diamond_heap [[(''x'', AField 0), (''y'', AField 1)]]
     = [(''x'', 0), (''y'', 1)] \<and>
   cls_fields diamond_heap [(''z'', AField 3), (''x'', AField 2), (''__doc__'', AOther)]
     = [(''x'', 2), (''z'', 3)] \<and>
   map fst (chain_registry diamond_heap
      ([[(''x'', AField 0), (''y'', AField 1)]] @
       [[(''z'', AField 3), (''x'', AField 2), (''__doc__'', AOther)]]))
     = [''x'', ''y'', ''z''] \<and>
   map_of (chain_registry diamond_heap
      ([[(''x'', AField 0), (''y'', AField 1)]] @
       [[(''z'', AField 3), (''x'', AField 2), (''__doc__'', AOther)]])) ''x'' = Some 2 \<and>
   map_of (chain_registry diamond_heap
      ([[(''x'', AField 0), (''y'', AField 1)]] @
       [[(''z'', AField 3), (''x'', AField 2), (''__doc__'', AOther)]])) ''y'' = Some 1"
proof -
  let ?b = "[(''x'', AField 0), (''y'', AField (1::nat))]"
  let ?attrs = "[(''z'', AField 3), (''x'', AField 2), (''__doc__'', AOther)]"
  have d1: "\<forall>b \<in> set [?b]. distinct (map fst b)" by simp
  have d2: "distinct (map fst ?attrs)" by simp
  have parent: "chain_registry diamond_heap [?b] = [(''x'', 0), (''y'', 1)]"
    using Base_mro_eq
    by (simp add: chain_registry_def class_chain_def Base_mro_def parent_registry_def)
  have own: "cls_fields diamond_heap ?attrs = [(''x'', 2), (''z'', 3)]"
    by (simp add: cls_fields_def get_fields_def is_field_def the_field_def diamond_heap_index)
  note chain = registry_of_single_inheritance_chain [OF d1 d2, of diamond_heap]
  from chain have "map fst (chain_registry diamond_heap ([?b] @ [?attrs]))
       = map fst (chain_registry diamond_heap [?b]) @
         filter (\<lambda>name. name \<notin> set (map fst (chain_registry diamond_heap [?b])))
           (map fst (cls_fields diamond_heap ?attrs))"
    by blast
  then have keys: "map fst (chain_registry diamond_heap ([?b] @ [?attrs])) = [''x'', ''y'', ''z'']"
    by (simp only: parent own) simp
  from chain have "(''x'', AField 2) \<in> set ?attrs \<longrightarrow>
      map_of (chain_registry diamond_heap ([?b] @ [?attrs])) ''x'' = Some 2"
    by blast
  then have x: "map_of (chain_registry diamond_heap ([?b] @ [?attrs])) ''x'' = Some 2"
    by simp
  from chain have "''y'' \<notin> fst ` set (cls_fields diamond_heap ?attrs) \<longrightarrow>
      map_of (chain_registry diamond_heap ([?b] @ [?attrs])) ''y''
        = map_of (chain_registry diamond_heap [?b]) ''y''"
    by blast
  then have y: "map_of (chain_registry diamond_heap ([?b] @ [?attrs])) ''y'' = Some 1"
    by (simp only: parent own) simp
  from d2 parent own keys x y show ?thesis by simp
qed

section \<open>Validation of a Derivable field flagged dont-dump\<close>

text \<open>
  C4. \<^verbatim>\<open>validate()\<close> should call the validator of each derivable field with the
  computed value. On an instance of the example schema \<^verbatim>\<open>validate()\<close> raises
  \<^verbatim>\<open>DontDumpError\<close>: the instance handed to \<^verbatim>\<open>Derivable.validate\<close> reaches \<^verbatim>\<open>get_value\<close> as
  \<^verbatim>\<open>check_dont_dump\<close>, is true, and the field is flagged dont-dump. No validator has failed:
  the getter returns a value, and the validator accepts it.
\<close>

theorem validate_derivable_dont_dump:
  "validate app_code (app_config 7) app_bound = Inl DontDumpError \<and>
   get_value app_code 1 (PyObj 7) (PyBool False) app_bound = Inl DontDumpError \<and>
   get_value app_code 1 (PyBool False) (PyBool False) app_bound = Inr (PyStr ''app'') \<and>
   call_validate_method app_code 1 (PyStr ''app'') app_bound = Inr (PyBool True)"
  by (simp add: validate_def app_config_def app_class_eq Constant_validate_def
      Derivable_validate_def get_value_def call_validate_method_def app_bound_eq app_code_def
      app_heap_def declare_field_def Field_init_def new_object_def)

end
